theory Spec2Isabelle
  imports Complex_Main "HOL-Library.Word" "HOL-Library.Sublist"
begin

section \<open>Python values used by the monitor\<close>

text \<open>
  A serial line arrives as \<open>bytes\<close>; a decoded line is a Python \<open>str\<close>, a sequence of
  Unicode code points. Literal ASCII strings of the program are embedded with \<open>str\<close>.
\<close>

type_synonym byte = "8 word"
type_synonym pystr = "nat list"

definition str :: "string \<Rightarrow> pystr" where
  "str s = map of_char s"

definition ascii :: "string \<Rightarrow> byte list" where
  "ascii s = map (\<lambda>c. of_nat (of_char c)) s"

datatype exn =
    SerialException pystr
  | UnicodeDecodeError pystr
  | UnboundLocalError
  | OSError pystr

subsection \<open>\<open>bytes.decode('utf-8', errors)\<close>\<close>

text \<open>
  The decoder of the Python runtime, for the two error handlers \<open>strict\<close> (the default)
  and \<open>ignore\<close>. \<open>utf8_next\<close> inspects the sequence that starts at the head of the
  input: it yields a code point and the number of bytes it occupies, or the reason the
  sequence is malformed and the number of bytes the error covers. Under \<open>strict\<close> a
  malformed sequence raises \<open>UnicodeDecodeError\<close>; under \<open>ignore\<close> the bytes the error
  covers are skipped and decoding resumes behind them.
\<close>

datatype errors = strict | ignore

datatype utf8_seq = Decoded nat nat | Malformed string nat

definition is_continuation :: "nat \<Rightarrow> bool" where
  "is_continuation c = (128 \<le> c \<and> c < 192)"

fun utf8_next :: "nat list \<Rightarrow> utf8_seq" where
  "utf8_next [] = Malformed ''unexpected end of data'' 0"
| "utf8_next (ch # s) =
    (if ch < 128 then Decoded ch 1
     else if ch < 224 then
       (if ch < 194 then Malformed ''invalid start byte'' 1
        else
         (case s of
            [] \<Rightarrow> Malformed ''unexpected end of data'' 1
          | ch2 # s2 \<Rightarrow>
             (if \<not> is_continuation ch2 then Malformed ''invalid continuation byte'' 1
              else Decoded ((ch - 192) * 64 + (ch2 - 128)) 2)))
     else if ch < 240 then
       (case s of
          [] \<Rightarrow> Malformed ''unexpected end of data'' 1
        | ch2 # s2 \<Rightarrow>
           (if \<not> is_continuation ch2 \<or> (if ch2 < 160 then ch = 224 else ch = 237)
            then Malformed ''invalid continuation byte'' 1
            else
             (case s2 of
                [] \<Rightarrow> Malformed ''unexpected end of data'' 2
              | ch3 # s3 \<Rightarrow>
                 (if \<not> is_continuation ch3 then Malformed ''invalid continuation byte'' 2
                  else Decoded ((ch - 224) * 4096 + (ch2 - 128) * 64 + (ch3 - 128)) 3))))
     else if ch < 245 then
       (case s of
          [] \<Rightarrow> Malformed ''unexpected end of data'' 1
        | ch2 # s2 \<Rightarrow>
           (if \<not> is_continuation ch2 \<or> (if ch2 < 144 then ch = 240 else ch = 244)
            then Malformed ''invalid continuation byte'' 1
            else
             (case s2 of
                [] \<Rightarrow> Malformed ''unexpected end of data'' 2
              | ch3 # s3 \<Rightarrow>
                 (if \<not> is_continuation ch3 then Malformed ''invalid continuation byte'' 2
                  else
                   (case s3 of
                      [] \<Rightarrow> Malformed ''unexpected end of data'' 3
                    | ch4 # s4 \<Rightarrow>
                       (if \<not> is_continuation ch4
                        then Malformed ''invalid continuation byte'' 3
                        else Decoded ((ch - 240) * 262144 + (ch2 - 128) * 4096
                                      + (ch3 - 128) * 64 + (ch4 - 128)) 4))))))
     else Malformed ''invalid start byte'' 1)"

function utf8_decode :: "errors \<Rightarrow> nat list \<Rightarrow> exn + pystr" where
  "utf8_decode h [] = Inr []"
| "utf8_decode h (ch # s) =
    (case utf8_next (ch # s) of
       Decoded cp n \<Rightarrow>
         (case utf8_decode h (drop (n - 1) s) of
            Inl e \<Rightarrow> Inl e
          | Inr t \<Rightarrow> Inr (cp # t))
     | Malformed reason n \<Rightarrow>
         (case h of
            strict \<Rightarrow> Inl (UnicodeDecodeError (str reason))
          | ignore \<Rightarrow> utf8_decode h (drop (n - 1) s)))"
  by pat_completeness auto
termination
  by (relation "measure (\<lambda>(h, s). length s)") auto

definition decode :: "errors \<Rightarrow> byte list \<Rightarrow> exn + pystr" where
  "decode h bs = utf8_decode h (map unat bs)"

subsection \<open>\<open>str.strip()\<close> and the \<open>in\<close> operator on strings\<close>

definition isspace :: "nat \<Rightarrow> bool" where
  "isspace c =
    ((9 \<le> c \<and> c \<le> 13) \<or> (28 \<le> c \<and> c \<le> 32) \<or> c = 133 \<or> c = 160 \<or> c = 5760
     \<or> (8192 \<le> c \<and> c \<le> 8202) \<or> c = 8232 \<or> c = 8233 \<or> c = 8239 \<or> c = 8287
     \<or> c = 12288)"

definition strip :: "pystr \<Rightarrow> pystr" where
  "strip t = rev (dropWhile isspace (rev (dropWhile isspace t)))"

fun startswith :: "'a list \<Rightarrow> 'a list \<Rightarrow> bool" where
  "startswith hay [] = True"
| "startswith [] (n # ns) = False"
| "startswith (h # hay) (n # ns) = (h = n \<and> startswith hay ns)"

fun contains :: "'a list \<Rightarrow> 'a list \<Rightarrow> bool" where
  "contains [] needle = (needle = [])"
| "contains (h # hay) needle = (startswith (h # hay) needle \<or> contains hay needle)"

section \<open>The worker thread\<close>

text \<open>
  The four signals of \<open>Worker\<close>, each carrying the board id, and the fields that
  \<open>Worker.__init__\<close> sets.
\<close>

datatype signal =
    log_signal nat pystr
  | error_signal nat pystr
  | flashed_signal nat
  | first_transmission_signal nat

record worker =
  port :: string
  baudrate :: nat
  board_id :: nat
  running :: bool
  first_transmission_received :: bool

definition Worker :: "string \<Rightarrow> nat \<Rightarrow> nat \<Rightarrow> worker" where
  "Worker p b i =
    \<lparr>port = p, baudrate = b, board_id = i, running = True,
     first_transmission_received = False\<rparr>"

definition stop :: "worker \<Rightarrow> worker" where
  "stop w = w\<lparr>running := False\<rparr>"

definition marker :: pystr where
  "marker = str ''Span Gateway 2.0.0 span-gateway''"

text \<open>
  What the serial port does in one pass of the loop: nothing is waiting, or
  \<open>readline()\<close> hands over a chunk of bytes, or \<open>in_waiting\<close> or \<open>readline()\<close> raises
  \<open>SerialException\<close>, or the operating system's error reaches the caller as it is
  (\<open>OSError\<close>, as \<open>in_waiting\<close> lets it on a device that hung up).
\<close>

datatype poll = nothing_waiting | readline "byte list" | serial_fails pystr | os_fails pystr

text \<open>
  The body of the \<open>while\<close> loop of \<open>Worker.run\<close>, on the worker and the signals emitted
  so far. \<open>Inl\<close> is an exception that leaves the loop.
\<close>

definition loop_body :: "poll \<Rightarrow> worker \<times> signal list \<Rightarrow> exn + worker \<times> signal list" where
  "loop_body p st =
    (case st of (w, out) \<Rightarrow>
      (case p of
         serial_fails msg \<Rightarrow> Inl (SerialException msg)
       | os_fails msg \<Rightarrow> Inl (OSError msg)
       | nothing_waiting \<Rightarrow> Inr (w, out)
       | readline bs \<Rightarrow>
          (case decode ignore bs of
             Inl (UnicodeDecodeError e) \<Rightarrow>
               Inr (w, out @ [error_signal (board_id w) (str ''Decoding error: '' @ e)])
           | Inl e \<Rightarrow> Inl e
           | Inr raw \<Rightarrow>
               (let data = strip raw;
                    w1 = (if \<not> first_transmission_received w
                          then w\<lparr>first_transmission_received := True\<rparr> else w);
                    out1 = (if \<not> first_transmission_received w
                            then out @ [first_transmission_signal (board_id w)] else out);
                    out2 = out1 @ [log_signal (board_id w) data];
                    out3 = (if contains data marker
                            then out2 @ [flashed_signal (board_id w)] else out2)
                in Inr (w1, out3)))))"

text \<open>
  The main thread may call \<open>stop()\<close> at any moment; the loop sees it at its next test of
  \<open>self.running\<close>. A schedule lists, in order, the calls of \<open>stop()\<close> and what the port
  does at each pass. The loop has left normally, has left by an exception, or is still
  turning when the schedule ends.
\<close>

datatype env_item = stop_called | pass poll

datatype loop_outcome = loop_left | loop_raised exn | still_looping

fun while_running ::
  "env_item list \<Rightarrow> worker \<times> signal list \<Rightarrow> loop_outcome \<times> worker \<times> signal list" where
  "while_running [] (w, out) = (if running w then still_looping else loop_left, w, out)"
| "while_running (stop_called # env) (w, out) = while_running env (stop w, out)"
| "while_running (pass p # env) (w, out) =
    (if \<not> running w then (loop_left, w, out)
     else case loop_body p (w, out) of
            Inl e \<Rightarrow> (loop_raised e, w, out)
          | Inr st \<Rightarrow> while_running env st)"

text \<open>
  \<open>Worker.run\<close>: \<open>try\<close> opens the port (\<open>open_fails\<close> is the \<open>SerialException\<close> of
  \<open>serial.Serial(...)\<close>, if it raises) and runs the loop; \<open>except SerialException\<close>
  emits the error signal; \<open>finally\<close> reads the local variable \<open>ser\<close>, which is unbound
  when the constructor raised, and closes the port if it is open.
\<close>

record environment =
  open_fails :: "pystr option"
  schedule :: "env_item list"

datatype run_outcome = thread_running | returned | raised exn

record run_result =
  self :: worker
  emitted :: "signal list"
  ser :: "bool option"
  close_calls :: nat
  outcome :: run_outcome

definition finally_block :: "run_result \<Rightarrow> run_result" where
  "finally_block r =
    (case ser r of
       None \<Rightarrow> r\<lparr>outcome := raised UnboundLocalError\<rparr>
     | Some is_open \<Rightarrow>
         if is_open then r\<lparr>ser := Some False, close_calls := close_calls r + 1\<rparr> else r)"

definition except_serial :: "exn \<Rightarrow> run_result \<Rightarrow> run_result" where
  "except_serial e r =
    (case e of
       SerialException msg \<Rightarrow>
         r\<lparr>emitted := emitted r @ [error_signal (board_id (self r)) (str ''Serial port error: '' @ msg)],
           outcome := returned\<rparr>
     | _ \<Rightarrow> r\<lparr>outcome := raised e\<rparr>)"

definition run :: "environment \<Rightarrow> worker \<Rightarrow> run_result" where
  "run env w =
    (case open_fails env of
       Some msg \<Rightarrow>
         finally_block (except_serial (SerialException msg)
           \<lparr>self = w, emitted = [], ser = None, close_calls = 0, outcome = returned\<rparr>)
     | None \<Rightarrow>
        (case while_running (schedule env) (w, []) of
           (still_looping, w', out) \<Rightarrow>
             \<lparr>self = w', emitted = out, ser = Some True, close_calls = 0,
              outcome = thread_running\<rparr>
         | (loop_left, w', out) \<Rightarrow>
             finally_block \<lparr>self = w', emitted = out, ser = Some True, close_calls = 0,
                      outcome = returned\<rparr>
         | (loop_raised e, w', out) \<Rightarrow>
             finally_block (except_serial e
               \<lparr>self = w', emitted = out, ser = Some True, close_calls = 0,
                outcome = returned\<rparr>)))"

section \<open>The main window\<close>

subsection \<open>Numbers and their display\<close>

text \<open>
  \<open>int(x)\<close> on a float truncates towards zero. The float sum \<open>value + 100 / 77\<close> is
  taken exactly: for an integer \<open>value\<close> it lies 23/77 above an integer, and the
  rounding of a double is far too small to move it across one (\<open>rounding_harmless\<close>).
\<close>

definition py_int :: "real \<Rightarrow> int" where
  "py_int x = (if 0 \<le> x then \<lfloor>x\<rfloor> else \<lceil>x\<rceil>)"

text \<open>
  \<open>QProgressBar.setValue\<close> on a bar whose range is 0 to 100 (\<open>setRange(0, 100)\<close> in
  \<open>add_board\<close>): a value outside the range leaves the bar as it is.
\<close>

definition setValue :: "int \<Rightarrow> int \<Rightarrow> int" where
  "setValue v bar = (if 0 \<le> v \<and> v \<le> 100 then v else bar)"

text \<open>The format specifications \<open>02\<close> and \<open>03\<close> of an f-string, on an \<open>int\<close>.\<close>

fun digits :: "nat \<Rightarrow> string" where
  "digits n = (if n < 10 then [''0123456789'' ! n]
               else digits (n div 10) @ [''0123456789'' ! (n mod 10)])"

declare digits.simps [simp del]

definition zero_padded :: "nat \<Rightarrow> int \<Rightarrow> string" where
  "zero_padded width n =
    (if n < 0
     then CHR ''-'' # replicate (width - 1 - length (digits (nat (- n)))) CHR ''0''
          @ digits (nat (- n))
     else replicate (width - length (digits (nat n))) CHR ''0'' @ digits (nat n))"

text \<open>The text that \<open>update_time\<close> computes from \<open>elapsed\<close> milliseconds.\<close>

definition current_time :: "int \<Rightarrow> string" where
  "current_time elapsed =
    (let milliseconds = elapsed mod 1000;
         seconds = (elapsed div 1000) mod 60;
         minutes = (elapsed div 60000) mod 60;
         hours = (elapsed div 3600000) mod 24
     in zero_padded 2 hours @ '':'' @ zero_padded 2 minutes @ '':''
        @ zero_padded 2 seconds @ ''.'' @ zero_padded 3 milliseconds)"

subsection \<open>The window and its slots\<close>

text \<open>
  The window keeps one list per kind of object, indexed by board id. A progress bar is
  its value, a text log the list of the messages appended to it, a label its text, an elapsed timer the clock reading
  at its start; a \<open>QTimer\<close> has an interval and is active or not. \<open>None\<close> is the
  placeholder that \<open>add_board\<close> appends. A slot that indexes a list out of range raises
  \<open>IndexError\<close>, and one that uses a placeholder \<open>AttributeError\<close>: the result \<open>None\<close>.
\<close>

datatype qtimer = QTimer (interval: nat) (active: bool)

definition timer_stop :: "qtimer \<Rightarrow> qtimer" where
  "timer_stop t = QTimer (interval t) False"

record main_window =
  workers :: "worker list"
  progress_bars :: "int list"
  text_logs :: "pystr list list"
  timers :: "qtimer list"
  time_labels :: "string list"
  elapsed_timers :: "int option list"
  progress_timers :: "qtimer option list"
  time_timers :: "qtimer option list"

definition MainWindow :: main_window where
  "MainWindow =
    \<lparr>workers = [], progress_bars = [], text_logs = [], timers = [], time_labels = [],
     elapsed_timers = [], progress_timers = [], time_timers = []\<rparr>"

text \<open>
  \<open>add_board\<close>; \<open>fresh\<close> is the value that a newly constructed \<open>QProgressBar\<close> reports,
  which the toolkit fixes and this program never sets: in Qt it is \<open>-1\<close>, one below the
  minimum, until \<open>setValue\<close> stores a value.
\<close>

definition add_board :: "int \<Rightarrow> string \<Rightarrow> nat \<Rightarrow> nat \<Rightarrow> main_window \<Rightarrow> main_window" where
  "add_board fresh prt baud bid mw =
    mw\<lparr>progress_bars := progress_bars mw @ [fresh],
       text_logs := text_logs mw @ [[]],
       time_labels := time_labels mw @ [[]],
       workers := workers mw @ [Worker prt baud bid],
       elapsed_timers := elapsed_timers mw @ [None],
       progress_timers := progress_timers mw @ [None],
       time_timers := time_timers mw @ [None]\<rparr>"

definition add_boards :: "int \<Rightarrow> string list \<Rightarrow> main_window \<Rightarrow> main_window" where
  "add_boards fresh ports mw =
    fold (\<lambda>prt m. add_board fresh prt 115200 (length (workers m)) m) ports mw"

definition start_timers :: "nat \<Rightarrow> int \<Rightarrow> main_window \<Rightarrow> main_window option" where
  "start_timers bid now mw =
    (if bid < length (elapsed_timers mw) \<and> bid < length (progress_timers mw)
        \<and> bid < length (time_timers mw)
     then Some (mw\<lparr>elapsed_timers := (elapsed_timers mw)[bid := Some now],
                   progress_timers := (progress_timers mw)[bid := Some (QTimer 10000 True)],
                   time_timers := (time_timers mw)[bid := Some (QTimer 1 True)]\<rparr>)
     else None)"

definition update_progress :: "nat \<Rightarrow> main_window \<Rightarrow> main_window option" where
  "update_progress bid mw =
    (if bid < length (progress_bars mw) \<and> bid < length (workers mw)
        \<and> bid < length (progress_timers mw)
     then
       (let val = progress_bars mw ! bid in
        if val < 100
        then Some (mw\<lparr>progress_bars :=
                        (progress_bars mw)[bid := setValue (py_int (of_int val + 100 / 77)) val]\<rparr>)
        else
          (case progress_timers mw ! bid of
             None \<Rightarrow> None
           | Some timer \<Rightarrow>
               if bid < length (text_logs mw)
               then Some (mw\<lparr>progress_timers := (progress_timers mw)[bid := Some (timer_stop timer)],
                             progress_bars := (progress_bars mw)[bid := setValue 100 val],
                             text_logs := (text_logs mw)
                               [bid := text_logs mw ! bid @ [str ''This board is flashed successfully'']],
                             workers := (workers mw)[bid := stop (workers mw ! bid)]\<rparr>)
               else None))
     else None)"

definition update_log :: "nat \<Rightarrow> pystr \<Rightarrow> main_window \<Rightarrow> main_window option" where
  "update_log bid message mw =
    (if bid < length (text_logs mw)
     then Some (mw\<lparr>text_logs := (text_logs mw)[bid := text_logs mw ! bid @ [message]]\<rparr>)
     else None)"

definition update_time :: "nat \<Rightarrow> int \<Rightarrow> main_window \<Rightarrow> main_window option" where
  "update_time bid now mw =
    (if bid < length (elapsed_timers mw)
     then (case elapsed_timers mw ! bid of
             None \<Rightarrow> None
           | Some started \<Rightarrow>
               if bid < length (time_labels mw)
               then Some (mw\<lparr>time_labels := (time_labels mw)[bid := current_time (now - started)]\<rparr>)
               else None)
     else None)"

definition handle_error :: "nat \<Rightarrow> pystr \<Rightarrow> main_window \<Rightarrow> main_window option" where
  "handle_error bid error_message mw =
    (if bid < length (text_logs mw)
     then Some (mw\<lparr>text_logs := (text_logs mw)
                     [bid := text_logs mw ! bid @ [str ''Error: '' @ error_message]]\<rparr>)
     else None)"

definition handle_flashed :: "nat \<Rightarrow> main_window \<Rightarrow> main_window option" where
  "handle_flashed bid mw =
    (if bid < length (progress_bars mw) \<and> bid < length (text_logs mw)
     then Some (mw\<lparr>progress_bars := (progress_bars mw)[bid := setValue 100 (progress_bars mw ! bid)],
                   text_logs := (text_logs mw)
                     [bid := text_logs mw ! bid @ [str ''Firmware flashing completed'']]\<rparr>)
     else None)"

definition closeEvent :: "main_window \<Rightarrow> main_window" where
  "closeEvent mw = mw\<lparr>workers := map stop (workers mw), timers := map timer_stop (timers mw)\<rparr>"

text \<open>
  What the event loop of the main thread delivers: a click on "Add Board" with the ports
  that \<open>comports()\<close> finds, a signal of a worker to the slot connected to it, a timeout
  of a board's progress timer or time timer (only an active timer fires), the closing
  of the window. Signals and time timeouts come with the reading of the clock.
\<close>

datatype gui_event =
    add_button_clicked "string list"
  | signal_delivered int signal
  | progress_timer_timeout nat
  | time_timer_timeout nat int
  | close_event

fun slot :: "int \<Rightarrow> signal \<Rightarrow> main_window \<Rightarrow> main_window option" where
  "slot now (log_signal bid message) mw = update_log bid message mw"
| "slot now (error_signal bid error_message) mw = handle_error bid error_message mw"
| "slot now (flashed_signal bid) mw = handle_flashed bid mw"
| "slot now (first_transmission_signal bid) mw = start_timers bid now mw"

definition timer_fires :: "nat \<Rightarrow> qtimer option list \<Rightarrow> bool" where
  "timer_fires bid ts =
    (bid < length ts \<and> (case ts ! bid of None \<Rightarrow> False | Some t \<Rightarrow> active t))"

fun gui_step :: "int \<Rightarrow> gui_event \<Rightarrow> main_window \<Rightarrow> main_window option" where
  "gui_step fresh (add_button_clicked ports) mw = Some (add_boards fresh ports mw)"
| "gui_step fresh (signal_delivered now sig) mw = slot now sig mw"
| "gui_step fresh (progress_timer_timeout bid) mw =
    (if timer_fires bid (progress_timers mw) then update_progress bid mw else Some mw)"
| "gui_step fresh (time_timer_timeout bid now) mw =
    (if timer_fires bid (time_timers mw) then update_time bid now mw else Some mw)"
| "gui_step fresh close_event mw = Some (closeEvent mw)"

fun gui_run :: "int \<Rightarrow> gui_event list \<Rightarrow> main_window \<Rightarrow> main_window option" where
  "gui_run fresh [] mw = Some mw"
| "gui_run fresh (ev # evs) mw =
    (case gui_step fresh ev mw of None \<Rightarrow> None | Some mw' \<Rightarrow> gui_run fresh evs mw')"

section \<open>Observing a run\<close>

text \<open>The kinds of signal in a trace.\<close>

fun is_log :: "signal \<Rightarrow> bool" where
  "is_log (log_signal i t) = True"
| "is_log s = False"

fun is_first :: "signal \<Rightarrow> bool" where
  "is_first (first_transmission_signal i) = True"
| "is_first s = False"

fun is_flashed :: "signal \<Rightarrow> bool" where
  "is_flashed (flashed_signal i) = True"
| "is_flashed s = False"

fun is_error :: "signal \<Rightarrow> bool" where
  "is_error (error_signal i m) = True"
| "is_error s = False"


fun chunks_received :: "env_item list \<Rightarrow> byte list list" where
  "chunks_received [] = []"
| "chunks_received (stop_called # env) = []"
| "chunks_received (pass nothing_waiting # env) = chunks_received env"
| "chunks_received (pass (readline bs) # env) = bs # chunks_received env"
| "chunks_received (pass (serial_fails m) # env) = []"
| "chunks_received (pass (os_fails m) # env) = []"

definition received :: "environment \<Rightarrow> byte list list" where
  "received env =
    (case open_fails env of None \<Rightarrow> chunks_received (schedule env) | Some m \<Rightarrow> [])"

definition line_text :: "byte list \<Rightarrow> pystr" where
  "line_text bs = (case decode ignore bs of Inr raw \<Rightarrow> strip raw | Inl e \<Rightarrow> [])"

definition has_marker :: "byte list \<Rightarrow> bool" where
  "has_marker bs = contains (line_text bs) marker"

text \<open>
  The signals that a received chunk gives rise to, and those of a list of chunks;
  \<open>first\<close> tells whether the chunk is the first of its session.
\<close>

definition line_signals :: "nat \<Rightarrow> bool \<Rightarrow> byte list \<Rightarrow> signal list" where
  "line_signals i first bs =
    (if first then [first_transmission_signal i] else [])
    @ [log_signal i (line_text bs)]
    @ (if has_marker bs then [flashed_signal i] else [])"

fun session_signals :: "nat \<Rightarrow> bool \<Rightarrow> byte list list \<Rightarrow> signal list" where
  "session_signals i first [] = []"
| "session_signals i first (bs # rest) = line_signals i first bs @ session_signals i False rest"

text \<open>
  A byte that cannot start a UTF-8 sequence: a continuation byte, \<open>0xC0\<close>, \<open>0xC1\<close>, or
  \<open>0xF5\<close> and above.
\<close>

definition invalid_start :: "byte \<Rightarrow> bool" where
  "invalid_start b = ((128 \<le> unat b \<and> unat b < 194) \<or> 245 \<le> unat b)"

text \<open>
  The display of a time of day, written out: a decimal digit, a number below 100 in two
  digits and a number below 1000 in three.
\<close>

definition decimal_digit :: "nat \<Rightarrow> char" where
  "decimal_digit n = ''0123456789'' ! n"

definition two_digits :: "nat \<Rightarrow> string" where
  "two_digits n = [decimal_digit (n div 10), decimal_digit (n mod 10)]"

definition three_digits :: "nat \<Rightarrow> string" where
  "three_digits n =
    [decimal_digit (n div 100), decimal_digit (n div 10 mod 10), decimal_digit (n mod 10)]"

subsection \<open>Sample inputs\<close>

definition marker_chunk :: "byte list" where
  "marker_chunk = ascii ''Span Gateway 2.0.0 span-gateway'' @ [10]"

definition bad_chunk :: "byte list" where
  "bad_chunk = [0x6F, 0x6B, 0xFF, 0x0A]"

definition w0 :: worker where
  "w0 = Worker ''COM3'' 115200 0"

definition two_markers :: environment where
  "two_markers =
    \<lparr>open_fails = None,
     schedule = [pass (readline marker_chunk), pass nothing_waiting,
                 pass (readline marker_chunk)]\<rparr>"

definition bad_line :: environment where
  "bad_line = \<lparr>open_fails = None, schedule = [pass (readline bad_chunk)]\<rparr>"


definition one_board :: "int \<Rightarrow> main_window" where
  "one_board v =
    \<lparr>workers = [w0], progress_bars = [v], text_logs = [[]], timers = [],
     time_labels = [[]], elapsed_timers = [Some 0],
     progress_timers = [Some (QTimer 10000 True)], time_timers = [Some (QTimer 1 True)]\<rparr>"




definition two_clicks :: "gui_event list" where
  "two_clicks =
    [add_button_clicked [''COM3'', ''COM4''], signal_delivered 7 (first_transmission_signal 0),
     signal_delivered 8 (flashed_signal 0), progress_timer_timeout 0, close_event,
     add_button_clicked [''COM3'']]"

definition two_boards :: main_window where
  "two_boards =
    \<lparr>workers = [Worker ''COM3'' 115200 0, Worker ''COM4'' 115200 1], progress_bars = [0, 0],
     text_logs = [[], []], timers = [], time_labels = [[], []], elapsed_timers = [None, None],
     progress_timers = [None, None], time_timers = [None, None]\<rparr>"

section \<open>The read loop\<close>

lemma utf8_decode_ignore: "\<exists>t. utf8_decode ignore s = Inr t"
proof (induction s rule: length_induct)
  case (1 s)
  show ?case
  proof (cases s)
    case Nil
    then show ?thesis by simp
  next
    case (Cons ch r)
    have "length (drop k r) < length s" for k
      using Cons by simp
    then have ih: "\<exists>t. utf8_decode ignore (drop k r) = Inr t" for k
      using 1 by blast
    show ?thesis
    proof (cases "utf8_next (ch # r)")
      case (Decoded cp n)
      from ih [of "n - 1"] obtain t where "utf8_decode ignore (drop (n - 1) r) = Inr t" ..
      with Cons Decoded show ?thesis by simp
    next
      case (Malformed why n)
      from ih [of "n - 1"] obtain t where "utf8_decode ignore (drop (n - 1) r) = Inr t" ..
      with Cons Malformed show ?thesis by simp
    qed
  qed
qed

lemma decode_ignore: "\<exists>raw. decode ignore bs = Inr raw"
  unfolding decode_def by (rule utf8_decode_ignore)

lemma line_text_decoded: "decode ignore bs = Inr raw \<Longrightarrow> line_text bs = strip raw"
  by (simp add: line_text_def)

lemma loop_body_readline:
  assumes "decode ignore bs = Inr raw"
  shows "loop_body (readline bs) (w, out) =
     Inr (w\<lparr>first_transmission_received := True\<rparr>,
          out @ (if first_transmission_received w then [] else [first_transmission_signal (board_id w)])
              @ [log_signal (board_id w) (strip raw)]
              @ (if contains (strip raw) marker then [flashed_signal (board_id w)] else []))"
  using assms by (simp add: loop_body_def Let_def)

lemma loop_body_line:
  "loop_body (readline bs) (w, out) =
     Inr (w\<lparr>first_transmission_received := True\<rparr>,
          out @ line_signals (board_id w) (\<not> first_transmission_received w) bs)"
proof -
  obtain raw where raw: "decode ignore bs = Inr raw"
    using decode_ignore by blast
  from loop_body_readline [OF raw, of w out] line_text_decoded [OF raw] show ?thesis
    by (simp add: line_signals_def has_marker_def)
qed

lemma loop_body_idle: "loop_body nothing_waiting (w, out) = Inr (w, out)"
  by (simp add: loop_body_def)

lemma loop_body_fails:
  "loop_body (serial_fails m) (w, out) = Inl (SerialException m)"
  "loop_body (os_fails m) (w, out) = Inl (OSError m)"
  by (simp_all add: loop_body_def)

text \<open>Once \<open>running\<close> is cleared the loop emits nothing more.\<close>

lemma while_running_stopped:
  assumes "\<not> running w"
  shows "while_running env (w, out) = (loop_left, w, out)"
  using assms
proof (induction env arbitrary: w)
  case Nil
  then show ?case by simp
next
  case (Cons x env)
  show ?case
  proof (cases x)
    case stop_called
    have "stop w = w" using Cons.prems by (simp add: stop_def)
    with stop_called Cons show ?thesis by simp
  next
    case (pass p)
    with Cons.prems show ?thesis by simp
  qed
qed

text \<open>
  The trace of the loop: the signals of the chunks received, in order, added to what
  was emitted before. The loop ends by an exception only when the port fails.
\<close>

lemma while_running_trace:
  assumes "running w"
  shows "\<exists>oc w'. while_running env (w, out) =
            (oc, w', out @ session_signals (board_id w) (\<not> first_transmission_received w)
                            (chunks_received env))
          \<and> board_id w' = board_id w
          \<and> (\<forall>e. oc = loop_raised e \<longrightarrow> (\<exists>m. e = SerialException m \<or> e = OSError m))"
  using assms
proof (induction env arbitrary: w out)
  case Nil
  then show ?case by simp
next
  case (Cons x env)
  show ?case
  proof (cases x)
    case stop_called
    have "\<not> running (stop w)" by (simp add: stop_def)
    from while_running_stopped [OF this, of env out] stop_called show ?thesis
      by (simp add: stop_def)
  next
    case (pass p)
    show ?thesis
    proof (cases p)
      case nothing_waiting
      with pass Cons.IH [OF Cons.prems, of out] Cons.prems show ?thesis
        by (simp add: loop_body_idle)
    next
      case (readline bs)
      let ?w = "w\<lparr>first_transmission_received := True\<rparr>"
      let ?out = "out @ line_signals (board_id w) (\<not> first_transmission_received w) bs"
      have "running ?w" using Cons.prems by simp
      from Cons.IH [OF this, of ?out] pass readline Cons.prems show ?thesis
        by (simp add: loop_body_line)
    next
      case (serial_fails m)
      with pass Cons.prems show ?thesis by (simp add: loop_body_fails)
    next
      case (os_fails m)
      with pass Cons.prems show ?thesis by (simp add: loop_body_fails)
    qed
  qed
qed

text \<open>
  The trace of \<open>run\<close> for a new worker: the signals of the chunks received, followed by
  nothing or by one error signal.
\<close>

lemma run_trace:
  "\<exists>tail. emitted (run env (Worker p b i)) = session_signals i True (received env) @ tail
      \<and> (\<forall>e\<in>set tail. is_error e)"
proof (cases "open_fails env")
  case (Some m)
  then show ?thesis
    by (simp add: run_def received_def except_serial_def finally_block_def)
next
  case None
  have "running (Worker p b i)" by (simp add: Worker_def)
  from while_running_trace [OF this, of "schedule env" "[]"] obtain oc w' where
    wr: "while_running (schedule env) (Worker p b i, []) =
           (oc, w', session_signals i True (chunks_received (schedule env)))"
    and exn: "\<forall>e. oc = loop_raised e \<longrightarrow> (\<exists>m. e = SerialException m \<or> e = OSError m)"
    by (auto simp: Worker_def)
  show ?thesis
  proof (cases oc)
    case loop_left
    with None wr show ?thesis by (simp add: run_def received_def finally_block_def)
  next
    case still_looping
    with None wr show ?thesis by (simp add: run_def received_def)
  next
    case (loop_raised e)
    with exn obtain m where "e = SerialException m \<or> e = OSError m" by blast
    with loop_raised None wr show ?thesis
      by (auto simp: run_def received_def except_serial_def finally_block_def)
  qed
qed

lemma session_logs:
  "filter is_log (session_signals i first rs) = map (\<lambda>bs. log_signal i (line_text bs)) rs"
  by (induction rs arbitrary: first) (simp_all add: line_signals_def)

lemma session_flashes:
  "filter is_flashed (session_signals i first rs) =
     map (\<lambda>bs. flashed_signal i) (filter has_marker rs)"
  by (induction rs arbitrary: first) (simp_all add: line_signals_def)

lemma session_firsts:
  "filter is_first (session_signals i first rs) =
     (if first \<and> rs \<noteq> [] then [first_transmission_signal i] else [])"
  by (induction rs arbitrary: first) (simp_all add: line_signals_def)

lemma session_errors: "filter is_error (session_signals i first rs) = []"
  by (induction rs arbitrary: first) (simp_all add: line_signals_def)

lemma error_signal_kinds:
  "is_error e \<Longrightarrow> \<not> is_flashed e \<and> \<not> is_log e \<and> \<not> is_first e"
  by (cases e) simp_all

lemma errors_filtered:
  assumes "\<forall>e\<in>set tail. is_error e"
  shows "filter is_log tail = []" "filter is_flashed tail = []" "filter is_first tail = []"
  using assms error_signal_kinds by (auto simp: filter_empty_conv)

text \<open>
  C1, as the code has it: the worker has no latch on the flashed signal. In every
  session the flashed signals are one for each chunk received whose text contains the
  marker, in the order of the chunks, so their number is the number of such chunks (one
  only when exactly one line received has the marker); and every chunk received is
  logged.
\<close>

theorem flashed_once_per_marker_line:
  "filter is_flashed (emitted (run env (Worker p b i))) =
     map (\<lambda>bs. flashed_signal i) (filter has_marker (received env))
   \<and> length (filter is_flashed (emitted (run env (Worker p b i)))) =
       length (filter has_marker (received env))
   \<and> filter is_log (emitted (run env (Worker p b i))) =
       map (\<lambda>bs. log_signal i (line_text bs)) (received env)"
proof -
  obtain tail where "emitted (run env (Worker p b i)) = session_signals i True (received env) @ tail"
    and "\<forall>e\<in>set tail. is_error e"
    using run_trace by blast
  then show ?thesis
    by (simp add: session_flashes session_logs errors_filtered)
qed

lemma chunk_decodes: "decode ignore marker_chunk = Inr (marker @ [10])"
  by (simp add: marker_chunk_def decode_def ascii_def marker_def str_def)

lemma strip_marker_line: "strip (marker @ [10]) = marker"
  by (simp add: strip_def isspace_def marker_def str_def)

lemma contains_marker: "contains marker marker"
  by (simp add: marker_def str_def)

lemma marker_chunk_text: "line_text marker_chunk = marker" "has_marker marker_chunk"
  by (simp_all add: line_text_def has_marker_def chunk_decodes strip_marker_line contains_marker)

lemma bad_chunk_decodes: "decode ignore bad_chunk = Inr [111, 107, 10]"
  by (simp add: bad_chunk_def decode_def is_continuation_def)

lemma bad_chunk_strict:
  "decode strict bad_chunk = Inl (UnicodeDecodeError (str ''invalid start byte''))"
  by (simp add: bad_chunk_def decode_def is_continuation_def)

lemma strip_ok: "strip [111, 107, 10] = [111, 107]"
  by (simp add: strip_def isspace_def)

lemma ok_has_no_marker: "\<not> contains [111, 107] marker"
  by (simp add: marker_def str_def)

lemma bad_chunk_text: "line_text bad_chunk = [111, 107]" "\<not> has_marker bad_chunk"
  using ok_has_no_marker
  by (simp_all add: line_text_def has_marker_def bad_chunk_decodes strip_ok del: contains.simps)

lemma loop_body_marker_chunk:
  "loop_body (readline marker_chunk) (w, out) =
     Inr (w\<lparr>first_transmission_received := True\<rparr>,
          out @ (if first_transmission_received w then [] else [first_transmission_signal (board_id w)])
              @ [log_signal (board_id w) marker, flashed_signal (board_id w)])"
  by (simp add: loop_body_line line_signals_def marker_chunk_text)

lemma loop_body_bad_chunk:
  "loop_body (readline bad_chunk) (w, out) =
     Inr (w\<lparr>first_transmission_received := True\<rparr>,
          out @ (if first_transmission_received w then [] else [first_transmission_signal (board_id w)])
              @ [log_signal (board_id w) [111, 107]])"
  by (simp add: loop_body_line line_signals_def bad_chunk_text)

lemma two_markers_emitted:
  "emitted (run two_markers w0) =
     [first_transmission_signal 0, log_signal 0 marker, flashed_signal 0,
      log_signal 0 marker, flashed_signal 0]"
  by (simp add: run_def two_markers_def w0_def Worker_def loop_body_marker_chunk loop_body_idle)

text \<open>
  C1 as stated fails: a session that receives two lines with the marker emits two
  flashed signals.
\<close>

theorem two_marker_lines_flash_twice:
  "received two_markers = [marker_chunk, marker_chunk]
   \<and> length (filter has_marker (received two_markers)) = 2
   \<and> length (filter is_flashed (emitted (run two_markers w0))) = 2"
proof -
  have "received two_markers = [marker_chunk, marker_chunk]"
    by (simp add: received_def two_markers_def)
  moreover have "length (filter is_flashed (emitted (run two_markers w0))) = 2"
    by (simp add: two_markers_emitted)
  ultimately show ?thesis by (simp add: marker_chunk_text)
qed

text \<open>
  C8: in every session the log signals are those of the chunks received, in order. If
  the session receives no chunk, the first-transmission signal is not emitted. If it
  receives one, the signal is emitted exactly once, as the first signal of the session
  and immediately before the log signal of the first chunk received, so that it
  precedes every log signal.
\<close>

theorem first_transmission_once_before_lines:
  "filter is_log (emitted (run env (Worker p b i))) =
       map (\<lambda>bs. log_signal i (line_text bs)) (received env)
   \<and> filter is_first (emitted (run env (Worker p b i))) =
       (if received env = [] then [] else [first_transmission_signal i])
   \<and> (received env \<noteq> [] \<longrightarrow>
        take 2 (emitted (run env (Worker p b i))) =
          [first_transmission_signal i, log_signal i (line_text (hd (received env)))])"
proof -
  obtain tail where out: "emitted (run env (Worker p b i)) = session_signals i True (received env) @ tail"
    and "\<forall>e\<in>set tail. is_error e"
    using run_trace by blast
  then have 1: "filter is_log (emitted (run env (Worker p b i))) =
       map (\<lambda>bs. log_signal i (line_text bs)) (received env)"
    and 2: "filter is_first (emitted (run env (Worker p b i))) =
       (if received env = [] then [] else [first_transmission_signal i])"
    by (simp_all add: session_logs session_firsts errors_filtered)
  have 3: "take 2 (emitted (run env (Worker p b i))) =
          [first_transmission_signal i, log_signal i (line_text (hd (received env)))]"
    if "received env \<noteq> []"
  proof -
    from that obtain bs rest where "received env = bs # rest" by (cases "received env") auto
    with out show ?thesis by (simp add: line_signals_def)
  qed
  from 1 2 3 show ?thesis by blast
qed

theorem first_transmission_once_before_lines_witness:
  "received two_markers = [marker_chunk, marker_chunk]
   \<and> filter is_first (emitted (run two_markers w0)) = [first_transmission_signal 0]
   \<and> take 2 (emitted (run two_markers w0)) = [first_transmission_signal 0, log_signal 0 marker]
   \<and> filter is_log (emitted (run two_markers w0)) = [log_signal 0 marker, log_signal 0 marker]"
proof -
  have r: "received two_markers = [marker_chunk, marker_chunk]"
    by (simp add: received_def two_markers_def)
  from first_transmission_once_before_lines [of two_markers "''COM3''" 115200 0] r
  show ?thesis by (simp add: w0_def marker_chunk_text)
qed

lemma utf8_next_Decoded:
  assumes "utf8_next s = Decoded cp n"
  shows "0 < n \<and> n \<le> length s \<and> utf8_next (take n s @ r) = Decoded cp n"
proof (cases s)
  case Nil
  with assms show ?thesis by simp
next
  case (Cons ch t)
  with assms show ?thesis
    by (auto split: if_splits list.splits)
qed


text \<open>
  What \<open>errors='ignore'\<close> yields is the strict decoding of the input with some bytes
  left out: bytes are dropped, none is replaced or added.
\<close>

lemma utf8_decode_subseq:
  "\<exists>kept raw. subseq kept s \<and> utf8_decode strict kept = Inr raw
      \<and> utf8_decode ignore s = Inr raw"
proof (induction s rule: length_induct)
  case (1 s)
  show ?case
  proof (cases s)
    case Nil
    have "subseq [] ([]::nat list)" by simp
    with Nil show ?thesis by force
  next
    case (Cons ch r)
    have "length (drop k r) < length s" for k
      using Cons by simp
    then have ih: "\<exists>kept raw. subseq kept (drop k r) \<and> utf8_decode strict kept = Inr raw
        \<and> utf8_decode ignore (drop k r) = Inr raw" for k
      using 1 by blast
    show ?thesis
    proof (cases "utf8_next (ch # r)")
      case (Decoded cp n)
      from ih [of "n - 1"] obtain kept raw where kept: "subseq kept (drop (n - 1) r)"
        and strict: "utf8_decode strict kept = Inr raw"
        and ign: "utf8_decode ignore (drop (n - 1) r) = Inr raw"
        by blast
      from utf8_next_Decoded [OF Decoded, of kept]
      have n: "0 < n" "n \<le> length (ch # r)"
        and nxt: "utf8_next (take n (ch # r) @ kept) = Decoded cp n"
        by simp_all
      from n have tk: "take n (ch # r) = ch # take (n - 1) r"
        by (cases n) simp_all
      from n have len: "length (take (n - 1) r) = n - 1" by simp
      have "subseq (take (n - 1) r @ kept) (take (n - 1) r @ drop (n - 1) r)"
        using kept by (simp only: subseq_append')
      then have 1: "subseq (ch # take (n - 1) r @ kept) s"
        using Cons by simp
      have "drop (n - 1) (take (n - 1) r @ kept) = kept"
        using len by simp
      with nxt tk strict
      have 2: "utf8_decode strict (ch # take (n - 1) r @ kept) = Inr (cp # raw)"
        by simp
      have 3: "utf8_decode ignore s = Inr (cp # raw)"
        using Cons Decoded ign by simp
      from 1 2 3 show ?thesis by blast
    next
      case (Malformed why k)
      from ih [of "k - 1"] obtain kept raw where kept: "subseq kept (drop (k - 1) r)"
        and strict: "utf8_decode strict kept = Inr raw"
        and ign: "utf8_decode ignore (drop (k - 1) r) = Inr raw"
        by blast
      have "suffix (drop (k - 1) r) (ch # r)"
        by (rule suffix_ConsI) (rule suffix_drop)
      then have "subseq (drop (k - 1) r) s"
        using Cons by (simp add: suffix_imp_subseq)
      with kept have 1: "subseq kept s"
        by (rule subseq_order.trans)
      have 3: "utf8_decode ignore s = Inr raw"
        using Cons Malformed ign by simp
      from 1 strict 3 show ?thesis by blast
    qed
  qed
qed

lemma decode_ignore_subseq:
  "\<exists>kept raw. subseq kept bs \<and> decode strict kept = Inr raw \<and> decode ignore bs = Inr raw"
proof -
  obtain kept raw where kept: "subseq kept (map unat bs)"
    and strict: "utf8_decode strict kept = Inr raw"
    and ign: "utf8_decode ignore (map unat bs) = Inr raw"
    using utf8_decode_subseq by blast
  from kept obtain N where "kept = nths (map unat bs) N"
    by (auto simp: subseq_conv_nths)
  then have "kept = map unat (nths bs N)" by (simp add: nths_map)
  moreover have "subseq (nths bs N) bs" by (auto simp: subseq_conv_nths)
  ultimately show ?thesis
    using strict ign by (auto simp: decode_def)
qed

text \<open>Nothing is left out of a chunk that the strict decoder accepts.\<close>

lemma utf8_decode_valid:
  "utf8_decode strict s = Inr t \<Longrightarrow> utf8_decode ignore s = Inr t"
proof (induction s arbitrary: t rule: length_induct)
  case (1 s)
  show ?case
  proof (cases s)
    case Nil
    with 1 show ?thesis by simp
  next
    case (Cons ch r)
    show ?thesis
    proof (cases "utf8_next (ch # r)")
      case (Decoded cp n)
      with Cons "1.prems" obtain t' where rest: "utf8_decode strict (drop (n - 1) r) = Inr t'"
        and t: "t = cp # t'"
        by (auto split: sum.splits)
      have "length (drop (n - 1) r) < length s" using Cons by simp
      with "1.IH" rest have "utf8_decode ignore (drop (n - 1) r) = Inr t'" by blast
      with Cons Decoded t show ?thesis by simp
    next
      case (Malformed why k)
      with Cons "1.prems" show ?thesis by simp
    qed
  qed
qed

lemma decode_valid: "decode strict bs = Inr t \<Longrightarrow> decode ignore bs = Inr t"
  unfolding decode_def by (rule utf8_decode_valid)

text \<open>Among ASCII bytes, bytes that cannot start a sequence are simply dropped.\<close>

lemma decode_ignore_ascii:
  assumes "\<forall>b\<in>set bs. unat b < 128 \<or> invalid_start b"
  shows "decode ignore bs = Inr (map unat (filter (\<lambda>b. unat b < 128) bs))"
  using assms
proof (induction bs)
  case Nil
  then show ?case by (simp add: decode_def)
next
  case (Cons b bs)
  then have ih: "utf8_decode ignore (map unat bs) = Inr (map unat (filter (\<lambda>b. unat b < 128) bs))"
    by (simp add: decode_def)
  from Cons.prems have "unat b < 128 \<or> invalid_start b" by simp
  then show ?case
  proof
    assume "unat b < 128"
    with ih show ?thesis by (simp add: decode_def)
  next
    assume "invalid_start b"
    then have "utf8_next (unat b # map unat bs) = Malformed ''invalid start byte'' 1"
      and "\<not> unat b < 128"
      by (auto simp: invalid_start_def)
    with ih show ?thesis by (simp add: decode_def)
  qed
qed

lemma decode_strict_invalid:
  assumes "\<forall>b\<in>set bs. unat b < 128 \<or> invalid_start b" and "\<exists>b\<in>set bs. invalid_start b"
  shows "decode strict bs = Inl (UnicodeDecodeError (str ''invalid start byte''))"
  using assms
proof (induction bs)
  case Nil
  then show ?case by simp
next
  case (Cons b bs)
  show ?case
  proof (cases "invalid_start b")
    case True
    then have "utf8_next (unat b # map unat bs) = Malformed ''invalid start byte'' 1"
      by (auto simp: invalid_start_def)
    then show ?thesis by (simp add: decode_def)
  next
    case False
    with Cons.prems have "unat b < 128" and "\<forall>b\<in>set bs. unat b < 128 \<or> invalid_start b"
      and "\<exists>b\<in>set bs. invalid_start b"
      by auto
    with Cons.IH show ?thesis by (simp add: decode_def)
  qed
qed

text \<open>
  C3, as the code has it: the chunk is decoded with \<open>errors='ignore'\<close>, which never
  raises. For every chunk of bytes, valid or not, and every state of the worker, the pass
  of the loop ends normally and emits no error signal: it emits the first-transmission
  signal if none was emitted before, one log signal, and the flashed signal if the text
  has the marker. The text logged is the stripped decoding of the chunk, and that
  decoding is the strict decoding of the chunk with some bytes left out: none when the
  strict decoder accepts the chunk, and, in a chunk of ASCII bytes and bytes that cannot
  start a sequence, exactly the latter (the strict decoder raises if there is one).
\<close>

theorem undecodable_bytes_are_dropped_silently:
  "\<exists>raw kept. decode ignore bs = Inr raw \<and> subseq kept bs \<and> decode strict kept = Inr raw
      \<and> loop_body (readline bs) (w, out) =
          Inr (w\<lparr>first_transmission_received := True\<rparr>,
               out @ (if first_transmission_received w then []
                      else [first_transmission_signal (board_id w)])
                   @ [log_signal (board_id w) (strip raw)]
                   @ (if contains (strip raw) marker then [flashed_signal (board_id w)] else []))
      \<and> (\<forall>t. decode strict bs = Inr t \<longrightarrow> raw = t)
      \<and> ((\<forall>b\<in>set bs. unat b < 128 \<or> invalid_start b) \<longrightarrow>
            raw = map unat (filter (\<lambda>b. unat b < 128) bs)
            \<and> ((\<exists>b\<in>set bs. invalid_start b) \<longrightarrow>
                 decode strict bs = Inl (UnicodeDecodeError (str ''invalid start byte''))))"
proof -
  obtain kept raw where 1: "subseq kept bs" "decode strict kept = Inr raw"
    and raw: "decode ignore bs = Inr raw"
    using decode_ignore_subseq by blast
  note 2 = loop_body_readline [OF raw, of w out]
  have 3: "raw = map unat (filter (\<lambda>b. unat b < 128) bs)"
    if "\<forall>b\<in>set bs. unat b < 128 \<or> invalid_start b"
    using decode_ignore_ascii [OF that] raw by simp
  have 4: "\<forall>t. decode strict bs = Inr t \<longrightarrow> raw = t"
    using decode_valid raw by fastforce
  from raw 1 2 3 4 decode_strict_invalid [of bs] show ?thesis by blast
qed

theorem undecodable_bytes_are_dropped_silently_witness:
  "decode ignore bad_chunk = Inr [111, 107, 10]
   \<and> decode strict bad_chunk = Inl (UnicodeDecodeError (str ''invalid start byte''))
   \<and> loop_body (readline bad_chunk) (w0, []) =
       Inr (w0\<lparr>first_transmission_received := True\<rparr>,
            [first_transmission_signal 0, log_signal 0 [111, 107]])"
proof -
  have all: "\<forall>b\<in>set bad_chunk. unat b < 128 \<or> invalid_start b"
    and some: "\<exists>b\<in>set bad_chunk. invalid_start b"
    and asc: "map unat (filter (\<lambda>b. unat b < 128) bad_chunk) = [111, 107, 10]"
    by (simp_all add: bad_chunk_def invalid_start_def)
  from undecodable_bytes_are_dropped_silently [of bad_chunk w0 "[]"] all some asc
  obtain raw where "decode ignore bad_chunk = Inr raw" and "raw = [111, 107, 10]"
    and "decode strict bad_chunk = Inl (UnicodeDecodeError (str ''invalid start byte''))"
    and "loop_body (readline bad_chunk) (w0, []) =
          Inr (w0\<lparr>first_transmission_received := True\<rparr>,
               [] @ (if first_transmission_received w0 then []
                      else [first_transmission_signal (board_id w0)])
                   @ [log_signal (board_id w0) (strip raw)]
                   @ (if contains (strip raw) marker then [flashed_signal (board_id w0)] else []))"
    by auto
  with ok_has_no_marker show ?thesis
    by (simp add: strip_ok w0_def Worker_def del: contains.simps)
qed

text \<open>
  C3 as stated fails: the chunk \<open>ok\xff\n\<close> is not valid UTF-8 (the strict decoder
  raises on it), and the session emits no error signal for it, only the line \<open>ok\<close>.
\<close>

theorem invalid_byte_gives_no_decode_error:
  "decode strict bad_chunk = Inl (UnicodeDecodeError (str ''invalid start byte''))
   \<and> outcome (run bad_line w0) = thread_running
   \<and> emitted (run bad_line w0) = [first_transmission_signal 0, log_signal 0 [111, 107]]
   \<and> length (filter is_error (emitted (run bad_line w0))) = 0"
  by (simp add: bad_chunk_strict run_def bad_line_def w0_def Worker_def loop_body_bad_chunk)

text \<open>
  C4: when \<open>serial.Serial(...)\<close> raises, the local variable \<open>ser\<close> is never bound, and
  the \<open>finally\<close> block, which reads \<open>ser.is_open\<close>, raises \<open>UnboundLocalError\<close> out of
  \<open>run\<close>. No handle is closed. On every exit of a port that did open, the handle is
  closed exactly once (\<open>opened_port_closed_once\<close>).
\<close>

theorem open_failure_release_raises:
  "outcome (run \<lparr>open_fails = Some msg, schedule = sch\<rparr> w) = raised UnboundLocalError
   \<and> ser (run \<lparr>open_fails = Some msg, schedule = sch\<rparr> w) = None
   \<and> close_calls (run \<lparr>open_fails = Some msg, schedule = sch\<rparr> w) = 0"
  by (simp add: run_def except_serial_def finally_block_def)

lemma opened_port_closed_once:
  assumes "open_fails env = None" and "outcome (run env w) \<noteq> thread_running"
  shows "close_calls (run env w) = 1 \<and> ser (run env w) = Some False
         \<and> (outcome (run env w) = returned \<or> (\<exists>m. outcome (run env w) = raised (OSError m)))"
proof -
  have "\<exists>oc w' out. while_running (schedule env) (w, []) = (oc, w', out)
      \<and> (\<forall>e. oc = loop_raised e \<longrightarrow> (\<exists>m. e = SerialException m \<or> e = OSError m))"
  proof (cases "running w")
    case True
    from while_running_trace [OF this, of "schedule env" "[]"] show ?thesis by blast
  next
    case False
    from while_running_stopped [OF this, of "schedule env" "[]"] show ?thesis by simp
  qed
  then obtain oc w' out where
    wr: "while_running (schedule env) (w, []) = (oc, w', out)"
    and exn: "\<forall>e. oc = loop_raised e \<longrightarrow> (\<exists>m. e = SerialException m \<or> e = OSError m)"
    by blast
  show ?thesis
  proof (cases oc)
    case loop_left
    with assms wr show ?thesis by (simp add: run_def finally_block_def)
  next
    case still_looping
    with assms wr show ?thesis by (simp add: run_def)
  next
    case (loop_raised e)
    with exn obtain m where "e = SerialException m \<or> e = OSError m" by blast
    with loop_raised assms wr show ?thesis
      by (auto simp: run_def except_serial_def finally_block_def)
  qed
qed

section \<open>Elapsed time\<close>

lemma digit_zero: "decimal_digit 0 = CHR ''0''"
  by (simp add: decimal_digit_def)

lemma digits_rec:
  "digits n = (if n < 10 then [decimal_digit n]
               else digits (n div 10) @ [decimal_digit (n mod 10)])"
  unfolding decimal_digit_def by (rule digits.simps)

lemma digits_below_10: "n < 10 \<Longrightarrow> digits n = [decimal_digit n]"
  using digits_rec [of n] by simp

lemma digits_below_100:
  assumes "10 \<le> n" and "n < 100"
  shows "digits n = [decimal_digit (n div 10), decimal_digit (n mod 10)]"
proof -
  from assms have "n div 10 < 10" by simp
  from digits_below_10 [OF this] assms(1) show ?thesis
    using digits_rec [of n] by simp
qed

lemma digits_below_1000:
  assumes "100 \<le> n" and "n < 1000"
  shows "digits n = [decimal_digit (n div 100), decimal_digit (n div 10 mod 10),
                     decimal_digit (n mod 10)]"
proof -
  from assms have "10 \<le> n div 10" "n div 10 < 100" by simp_all
  from digits_below_100 [OF this]
  have "digits (n div 10) = [decimal_digit (n div 10 div 10), decimal_digit (n div 10 mod 10)]" .
  moreover have "n div 10 div 10 = n div 100"
    using div_mult2_eq [of n 10 10] by simp
  ultimately show ?thesis
    using digits_rec [of n] assms(1) by simp
qed

lemma zeros: "replicate 2 c = [c, c]" "replicate 3 c = [c, c, c]"
  by (simp_all add: numeral_2_eq_2 numeral_3_eq_3)

lemma zero_padded_2: "n < 100 \<Longrightarrow> zero_padded 2 (int n) = two_digits n"
proof (cases "n < 10")
  case True
  then show ?thesis
    by (simp add: zero_padded_def digits_below_10 two_digits_def digit_zero)
next
  case False
  assume "n < 100"
  with False show ?thesis
    by (simp add: zero_padded_def digits_below_100 two_digits_def)
qed

lemma zero_padded_3: "n < 1000 \<Longrightarrow> zero_padded 3 (int n) = three_digits n"
proof -
  assume n: "n < 1000"
  consider "n < 10" | "10 \<le> n" "n < 100" | "100 \<le> n" by linarith
  then show ?thesis
  proof cases
    case 1
    then show ?thesis
      by (simp add: zero_padded_def digits_below_10 three_digits_def digit_zero zeros)
  next
    case 2
    then have "n div 100 = 0" by simp
    with 2 show ?thesis
      by (simp add: zero_padded_def digits_below_100 three_digits_def digit_zero)
  next
    case 3
    with n show ?thesis
      by (simp add: zero_padded_def digits_below_1000 three_digits_def)
  qed
qed

lemma div_mod_step:
  fixes a r k :: int
  assumes "0 \<le> r" and "r < k"
  shows "(a * k + r) div k = a" and "(a * k + r) mod k = r"
  using assms by simp_all


lemma split_time:
  fixes d :: int and h m s ms :: nat
  assumes "h < 24" "m < 60" "s < 60" "ms < 1000"
  defines "e \<equiv> (((d * 24 + int h) * 60 + int m) * 60 + int s) * 1000 + int ms"
  shows "e mod 1000 = int ms" "e div 1000 mod 60 = int s" "e div 60000 mod 60 = int m"
    "e div 3600000 mod 24 = int h"
proof -
  let ?C = "d * 24 + int h"
  let ?B = "?C * 60 + int m"
  let ?A = "?B * 60 + int s"
  have ms: "0 \<le> int ms" "int ms < 1000" and s: "0 \<le> int s" "int s < 60"
    and m: "0 \<le> int m" "int m < 60" and h: "0 \<le> int h" "int h < 24"
    using assms(1-4) by simp_all
  have a: "e div 1000 = ?A" and a': "e mod 1000 = int ms"
    unfolding e_def by (rule div_mod_step [OF ms])+
  have b: "?A div 60 = ?B" and b': "?A mod 60 = int s"
    by (rule div_mod_step [OF s])+
  have c: "?B div 60 = ?C" and c': "?B mod 60 = int m"
    by (rule div_mod_step [OF m])+
  have d': "?C mod 24 = int h"
    by (rule div_mod_step [OF h])
  have "e div (1000 * 60) = e div 1000 div 60"
    by (rule zdiv_zmult2_eq) simp
  then have f: "e div 60000 = ?B"
    by (simp only: a b) simp
  have "e div (60000 * 60) = e div 60000 div 60"
    by (rule zdiv_zmult2_eq) simp
  then have g: "e div 3600000 = ?C"
    by (simp only: f c) simp
  show "e mod 1000 = int ms" by (rule a')
  show "e div 1000 mod 60 = int s" by (simp only: a b')
  show "e div 60000 mod 60 = int m" by (simp only: f c')
  show "e div 3600000 mod 24 = int h" by (simp only: g d')
qed

lemma current_time_fields:
  assumes "h < 24" "m < 60" "s < 60" "ms < 1000"
  shows "current_time ((((d * 24 + int h) * 60 + int m) * 60 + int s) * 1000 + int ms) =
          two_digits h @ '':'' @ two_digits m @ '':'' @ two_digits s @ ''.'' @ three_digits ms"
proof -
  note f = split_time [OF assms, of d]
  from assms have "h < 100" "m < 100" "s < 100" by simp_all
  note p = zero_padded_2 [OF this(1)] zero_padded_2 [OF this(2)] zero_padded_2 [OF this(3)]
    zero_padded_3 [OF assms(4)]
  show ?thesis
    unfolding current_time_def Let_def by (simp only: f p)
qed


text \<open>
  C7: an elapsed time of \<open>d\<close> days, \<open>h\<close> hours, \<open>m\<close> minutes, \<open>s\<close> seconds and \<open>ms\<close>
  milliseconds is shown as the hours in two digits, a colon, the minutes in two digits,
  a colon, the seconds in two digits, a point and the milliseconds in three digits; the
  days are not shown, so the hours wrap modulo 24. 3,661,234 ms is shown as
  \<open>01:01:01.234\<close>, and 86,400,000 ms (24 hours) with hours \<open>00\<close>.
\<close>

theorem elapsed_time_format:
  "current_time 3661234 = ''01:01:01.234''
   \<and> take 2 (current_time 86400000) = ''00''
   \<and> (\<forall>d h m s ms. h < 24 \<and> m < 60 \<and> s < 60 \<and> ms < 1000 \<longrightarrow>
        current_time ((((d * 24 + int h) * 60 + int m) * 60 + int s) * 1000 + int ms) =
          two_digits h @ '':'' @ two_digits m @ '':'' @ two_digits s @ ''.'' @ three_digits ms)"
proof -
  have a: "current_time 3661234 = ''01:01:01.234''"
    using current_time_fields [of 1 1 1 234 0]
    by (simp add: two_digits_def three_digits_def decimal_digit_def)
  have b: "current_time 86400000 = ''00:00:00.000''"
    using current_time_fields [of 0 0 0 0 1]
    by (simp add: two_digits_def three_digits_def decimal_digit_def)
  from a b current_time_fields show ?thesis by simp
qed

theorem elapsed_time_format_witness:
  "current_time 86399999 = ''23:59:59.999'' \<and> current_time (- 1) = ''23:59:59.999''
   \<and> current_time 45296789 = ''12:34:56.789''"
proof -
  from elapsed_time_format
  have gen: "h < 24 \<and> m < 60 \<and> s < 60 \<and> ms < 1000 \<longrightarrow>
        current_time ((((d * 24 + int h) * 60 + int m) * 60 + int s) * 1000 + int ms) =
          two_digits h @ '':'' @ two_digits m @ '':'' @ two_digits s @ ''.'' @ three_digits ms"
    for d h m s ms
    by blast
  from gen [of 23 59 59 999 0] gen [of 23 59 59 999 "- 1"] gen [of 12 34 56 789 0]
  show ?thesis
    by (simp add: two_digits_def three_digits_def decimal_digit_def)
qed

section \<open>Progress\<close>

lemma floor_increment: "\<lfloor>(100::real) / 77\<rfloor> = 1"
  by simp

lemma tick_value: "0 \<le> v \<Longrightarrow> py_int (of_int v + 100 / 77) = v + 1"
proof -
  assume "0 \<le> v"
  then have "(0::real) \<le> of_int v + 100 / 77" by simp
  moreover have "\<lfloor>of_int v + (100::real) / 77\<rfloor> = v + 1"
    using int_add_floor [of v "(100::real) / 77", symmetric] floor_increment by simp
  ultimately show ?thesis by (simp add: py_int_def)
qed

text \<open>
  An error of less than a quarter in the float sum does not change the integer stored,
  so the rounding of the two float operations is immaterial.
\<close>

lemma rounding_harmless:
  fixes d :: real
  assumes "0 \<le> v" and "\<bar>d\<bar> < 1 / 4"
  shows "py_int (of_int v + 100 / 77 + d) = py_int (of_int v + 100 / 77)"
proof -
  have "(0::real) \<le> of_int v" using assms(1) by simp
  then have pos: "0 \<le> of_int v + 100 / 77 + d" using assms(2) by linarith
  have "\<lfloor>of_int v + 100 / 77 + d\<rfloor> = v + 1"
    using assms(2) by (intro floor_unique) (simp, linarith)+
  with pos tick_value [OF assms(1)] show ?thesis by (simp add: py_int_def)
qed


section \<open>The boards of the window\<close>

lemma add_boards_Nil: "add_boards fresh [] mw = mw"
  by (simp add: add_boards_def)

lemma add_boards_Cons:
  "add_boards fresh (prt # ports) mw =
     add_boards fresh ports (add_board fresh prt 115200 (length (workers mw)) mw)"
  by (simp add: add_boards_def)

lemma add_boards_ids:
  "map board_id (workers (add_boards fresh ports mw)) =
     map board_id (workers mw) @ [length (workers mw) ..< length (workers mw) + length ports]"
proof (induction ports arbitrary: mw)
  case Nil
  then show ?case by (simp add: add_boards_Nil)
next
  case (Cons prt ports)
  let ?mw = "add_board fresh prt 115200 (length (workers mw)) mw"
  have "map board_id (workers ?mw) = map board_id (workers mw) @ [length (workers mw)]"
    and "length (workers ?mw) = Suc (length (workers mw))"
    by (simp_all add: add_board_def Worker_def)
  moreover have "[length (workers mw) ..< length (workers mw) + length (prt # ports)] =
      length (workers mw) # [Suc (length (workers mw)) ..< Suc (length (workers mw)) + length ports]"
    using upt_conv_Cons [of "length (workers mw)" "length (workers mw) + Suc (length ports)"]
    by (simp del: upt_Suc)
  ultimately show ?case
    using Cons.IH [of ?mw] by (simp add: add_boards_Cons del: upt_Suc)
qed


lemma map_board_id_stop:
  "map board_id (ws[i := stop (ws ! i)]) = map board_id ws"
proof (cases "i < length ws")
  case True
  then have "(map board_id ws)[i := board_id (ws ! i)] = map board_id ws"
    using list_update_id [of "map board_id ws" i] by simp
  then show ?thesis by (simp add: map_update stop_def)
next
  case False
  then show ?thesis by (simp add: list_update_beyond)
qed

lemma update_progress_below:
  assumes "bid < length (progress_bars mw)" "bid < length (workers mw)"
    "bid < length (progress_timers mw)"
    and "progress_bars mw ! bid = v" "0 \<le> v" "v < 100"
  shows "update_progress bid mw = Some (mw\<lparr>progress_bars := (progress_bars mw)[bid := v + 1]\<rparr>)"
  using assms by (simp add: update_progress_def Let_def tick_value setValue_def)

lemma ticks_below_100:
  assumes "bid < length (progress_bars mw)" "bid < length (workers mw)"
    "timer_fires bid (progress_timers mw)"
    and "progress_bars mw ! bid = v" "0 \<le> v" "v + int n \<le> 100"
  shows "gui_run fresh (replicate n (progress_timer_timeout bid)) mw =
           Some (mw\<lparr>progress_bars := (progress_bars mw)[bid := v + int n]\<rparr>)"
  using assms
proof (induction n arbitrary: mw v)
  case 0
  then have "(progress_bars mw)[bid := v] = progress_bars mw"
    using list_update_id [of "progress_bars mw" bid] by simp
  then show ?case by simp
next
  case (Suc n)
  let ?mw = "mw\<lparr>progress_bars := (progress_bars mw)[bid := v + 1]\<rparr>"
  from Suc.prems have lt: "bid < length (progress_timers mw)"
    by (simp add: timer_fires_def)
  from Suc.prems have "v < 100" by simp
  with Suc.prems lt have step: "gui_step fresh (progress_timer_timeout bid) mw = Some ?mw"
    by (simp add: update_progress_below)
  have "gui_run fresh (replicate n (progress_timer_timeout bid)) ?mw =
           Some (?mw\<lparr>progress_bars := (progress_bars ?mw)[bid := (v + 1) + int n]\<rparr>)"
    using Suc.prems by (intro Suc.IH) simp_all
  with step show ?case by (simp add: add.assoc)
qed


text \<open>
  C6: the bar holds an integer, and \<open>update_progress\<close> reads it back at each tick and
  stores \<open>int(value + 100 / 77)\<close>, which is \<open>value + 1\<close>. From a value \<open>v\<close> at or above 0,
  \<open>n\<close> ticks that stay within 100 leave the bar at \<open>v + n\<close> and change nothing else: from 0
  the bar shows 77 after 77 ticks and reaches 100 only with the 100th.
\<close>

theorem progress_gains_one_per_tick:
  assumes "bid < length (progress_bars mw)" and "bid < length (workers mw)"
    and "timer_fires bid (progress_timers mw)"
    and "progress_bars mw ! bid = v" and "0 \<le> v" and "v + int n \<le> 100"
  shows "gui_run fresh (replicate n (progress_timer_timeout bid)) mw =
           Some (mw\<lparr>progress_bars := (progress_bars mw)[bid := v + int n]\<rparr>)"
  using assms by (rule ticks_below_100)

lemma one_board_bar: "(one_board v)\<lparr>progress_bars := (progress_bars (one_board v))[0 := x]\<rparr> = one_board x"
  by (simp add: one_board_def)

theorem progress_gains_one_per_tick_witness:
  "gui_run 0 (replicate 100 (progress_timer_timeout 0)) (one_board 0) = Some (one_board 100)
   \<and> gui_run 0 (replicate 77 (progress_timer_timeout 0)) (one_board 0) = Some (one_board 77)
   \<and> gui_run 0 (replicate 1 (progress_timer_timeout 0)) (one_board 41) = Some (one_board 42)"
  using progress_gains_one_per_tick [of 0 "one_board 0" 0 100 0]
    progress_gains_one_per_tick [of 0 "one_board 0" 0 77 0]
    progress_gains_one_per_tick [of 0 "one_board 41" 41 1 0]
  by (simp add: one_board_bar) (simp add: one_board_def timer_fires_def)

text \<open>
  C2, on the code: after 77 ticks from 0 the bar is at 77, not at 100; the progress timer
  is still active, nothing has been logged and the worker is running; the 78th tick has
  an effect, it moves the bar to 78. The comment at the increment takes the total to be
  77 ten-second intervals. The completion branch runs at the first tick that finds the
  bar at 100 (\<open>completion_tick\<close>), the 101st.
\<close>

theorem seventy_seven_ticks_reach_77:
  "gui_run fresh (replicate 77 (progress_timer_timeout 0)) (one_board 0) = Some (one_board 77)
   \<and> gui_run fresh (replicate 78 (progress_timer_timeout 0)) (one_board 0) = Some (one_board 78)
   \<and> progress_bars (one_board 77) = [77]
   \<and> progress_timers (one_board 77) = [Some (QTimer 10000 True)]
   \<and> text_logs (one_board 77) = [[]]
   \<and> map running (workers (one_board 77)) = [True]"
proof -
  have "gui_run fresh (replicate n (progress_timer_timeout 0)) (one_board 0) = Some (one_board (int n))"
    if "n \<le> 100" for n
    using that ticks_below_100 [of 0 "one_board 0" 0 n fresh]
    by (simp add: one_board_bar) (simp add: one_board_def timer_fires_def)
  from this [of 77] this [of 78] show ?thesis
    by (simp add: one_board_def w0_def Worker_def)
qed

lemma completion_tick:
  "gui_step fresh (progress_timer_timeout 0) (one_board 100) =
     Some ((one_board 100)
       \<lparr>workers := [stop w0],
        text_logs := [[str ''This board is flashed successfully'']],
        progress_timers := [Some (QTimer 10000 False)]\<rparr>)"
  by (simp add: one_board_def timer_fires_def update_progress_def setValue_def timer_stop_def)


lemma setValue_100: "v \<le> 100 \<Longrightarrow> v \<le> setValue 100 v \<and> setValue 100 v \<le> 100"
  by (simp add: setValue_def)



















lemma add_boards_length:
  "length (workers (add_boards fresh ports mw)) = length (workers mw) + length ports"
  using arg_cong [OF add_boards_ids [of fresh ports mw], of length] by simp

lemma ids_extend:
  assumes "map board_id (workers mw) = [0..<length (workers mw)]"
  shows "map board_id (workers (add_boards fresh ports mw)) =
           [0..<length (workers mw) + length ports]"
  using assms upt_add_eq_append [of 0 "length (workers mw)" "length ports"]
  by (simp add: add_boards_ids)

lemma map_board_id_stop_all: "map board_id (map stop ws) = map board_id ws"
  by (induction ws) (simp_all add: stop_def)

lemma update_progress_workers:
  assumes "update_progress bid mw = Some mw'"
  shows "workers mw' = workers mw \<or> workers mw' = (workers mw)[bid := stop (workers mw ! bid)]"
  using assms
  by (auto simp: update_progress_def Let_def split: if_splits option.splits)

lemma gui_step_ids:
  assumes "gui_step fresh ev mw = Some mw'"
    and "map board_id (workers mw) = [0..<length (workers mw)]"
  shows "map board_id (workers mw') = [0..<length (workers mw')]
     \<and> length (workers mw) \<le> length (workers mw')"
proof (cases ev)
  case (add_button_clicked ports)
  with assms ids_extend [OF assms(2), of fresh ports] show ?thesis
    by (auto simp: add_boards_length)
next
  case (signal_delivered now sig)
  with assms show ?thesis
    by (cases sig)
       (auto simp: update_log_def handle_error_def handle_flashed_def start_timers_def
          split: if_splits)
next
  case (progress_timer_timeout bid)
  show ?thesis
  proof (cases "timer_fires bid (progress_timers mw)")
    case True
    with progress_timer_timeout assms(1) have "update_progress bid mw = Some mw'" by simp
    from update_progress_workers [OF this] assms(2) show ?thesis
      by (auto simp: map_board_id_stop)
  next
    case False
    with progress_timer_timeout assms show ?thesis by simp
  qed
next
  case (time_timer_timeout bid now)
  with assms show ?thesis
    by (auto simp: update_time_def split: if_splits option.splits)
next
  case close_event
  with assms map_board_id_stop_all [of "workers mw"] show ?thesis
    by (auto simp: closeEvent_def simp del: map_map)
qed

lemma gui_run_ids:
  assumes "gui_run fresh evs mw = Some mw'"
    and "map board_id (workers mw) = [0..<length (workers mw)]"
  shows "map board_id (workers mw') = [0..<length (workers mw')]
     \<and> length (workers mw) \<le> length (workers mw')"
  using assms
proof (induction evs arbitrary: mw)
  case Nil
  then show ?case by simp
next
  case (Cons ev evs)
  from Cons.prems(1) obtain mw1 where step: "gui_step fresh ev mw = Some mw1"
    and rest: "gui_run fresh evs mw1 = Some mw'"
    by (auto split: option.splits)
  from gui_step_ids [OF step Cons.prems(2)] Cons.IH [OF rest] show ?case by auto
qed

text \<open>
  C9: in every window reached from the empty one, the board ids of the workers are
  0, 1, 2, ... in the order of registration; registering N more ports appends the next N
  ids; and after any further events, stopped workers or not, the ids are distinct and
  the earlier ones are where they were.
\<close>

theorem board_ids_count_up_and_stay:
  assumes "gui_run fresh evs MainWindow = Some mw" and "gui_run fresh evs' mw = Some mw'"
  shows "map board_id (workers mw) = [0..<length (workers mw)]
     \<and> map board_id (workers (add_boards fresh ports mw)) = [0..<length (workers mw) + length ports]
     \<and> distinct (map board_id (workers mw'))
     \<and> take (length (workers mw)) (map board_id (workers mw')) = map board_id (workers mw)"
proof -
  have ids: "map board_id (workers mw) = [0..<length (workers mw)]"
    using gui_run_ids [OF assms(1)] by (simp add: MainWindow_def)
  from gui_run_ids [OF assms(2) ids]
  have ids': "map board_id (workers mw') = [0..<length (workers mw')]"
    and le: "length (workers mw) \<le> length (workers mw')"
    by simp_all
  have "take (length (workers mw)) [0..<length (workers mw')] = [0..<length (workers mw)]"
    using le by (simp add: take_upt)
  with ids ids' ids_extend [OF ids, of fresh ports] show ?thesis by simp
qed

lemma first_click: "add_boards 0 [''COM3'', ''COM4''] MainWindow = two_boards"
  by (simp add: add_boards_Cons add_boards_Nil add_board_def MainWindow_def two_boards_def)

lemma two_clicks_workers:
  "\<exists>mw. gui_run 0 two_clicks MainWindow = Some mw
      \<and> map running (workers mw) = [False, False, True]"
proof -
  have "gui_run 0 two_clicks MainWindow = gui_run 0 (tl two_clicks) two_boards"
    by (simp add: two_clicks_def first_click)
  also have "\<dots> = gui_run 0 (drop 4 two_clicks) (two_boards\<lparr>progress_bars := [100, 0],
      text_logs := [[str ''Firmware flashing completed'', str ''This board is flashed successfully''], []],
      elapsed_timers := [Some 7, None],
      progress_timers := [Some (QTimer 10000 False), None],
      time_timers := [Some (QTimer 1 True), None],
      workers := [stop (Worker ''COM3'' 115200 0), Worker ''COM4'' 115200 1]\<rparr>)"
    by (simp add: two_clicks_def two_boards_def start_timers_def handle_flashed_def setValue_def
         timer_fires_def update_progress_def timer_stop_def)
  finally show ?thesis
    by (simp add: two_clicks_def two_boards_def closeEvent_def add_boards_Cons add_boards_Nil
          add_board_def stop_def Worker_def)
qed

theorem board_ids_count_up_and_stay_witness:
  "map board_id (workers (the (gui_run 0 two_clicks MainWindow))) = [0, 1, 2]
   \<and> map running (workers (the (gui_run 0 two_clicks MainWindow))) = [False, False, True]"
proof -
  from two_clicks_workers obtain mw where run: "gui_run 0 two_clicks MainWindow = Some mw"
    and stopped: "map running (workers mw) = [False, False, True]"
    by (elim exE conjE)
  have "gui_run 0 [] mw = Some mw" by simp
  from board_ids_count_up_and_stay [OF run this, of "[]"]
  have "map board_id (workers mw) = [0..<length (workers mw)]" by simp
  moreover have "length (workers mw) = 3"
    using arg_cong [OF stopped, of length] by simp
  ultimately have "map board_id (workers mw) = [0, 1, 2]"
    by (simp add: upt_rec)
  with run stopped show ?thesis by simp
qed





section \<open>Stopping the worker\<close>








end
